theory Spec2Isabelle
  imports Complex_Main
begin

section \<open>Python values used by the services\<close>

text \<open>
  Exceptions are values. \<open>ValueError\<close> is what \<open>range\<close> raises for a zero step,
  \<open>IndexError\<close> what \<open>xs[0]\<close> raises on an empty list, \<open>KeyError k\<close> what \<open>d[k]\<close> raises
  for a key \<open>k\<close> missing from a dictionary, \<open>CollaboratorError msg\<close> stands for any
  exception raised by one of the external services (embedding model, vector index,
  language model) with \<open>str(e) = msg\<close>, and \<open>HTTPException status detail\<close> is the FastAPI
  exception the route handlers raise.
\<close>

datatype error =
    ValueError
  | IndexError
  | KeyError string
  | CollaboratorError string
  | HTTPException nat string

text \<open>\<open>str(n)\<close> for an integer: decimal digits, with a leading minus sign when negative.\<close>

definition digit_char :: "nat \<Rightarrow> char" where
  "digit_char d = char_of (48 + d)"

function str_nat :: "nat \<Rightarrow> string" where
  "str_nat n = (if n < 10 then [digit_char n] else str_nat (n div 10) @ [digit_char (n mod 10)])"
  by pat_completeness auto
termination
  by (relation "measure (\<lambda>n. n)") auto

declare str_nat.simps [simp del]

definition str_int :: "int \<Rightarrow> string" where
  "str_int i = (if i < 0 then CHR ''-'' # str_nat (nat (- i)) else str_nat (nat i))"

text \<open>
  \<open>str(e)\<close>. For a \<open>KeyError\<close> it is the key between single quotes, which is
  \<open>repr\<close> of a key made of printable characters other than the quote and the
  backslash, as the identifiers drawn by \<open>uuid4\<close> are; for an \<open>HTTPException\<close> it is
  the status code, a colon and the detail.
\<close>

fun error_str :: "error \<Rightarrow> string" where
  "error_str ValueError = ''range() arg 3 must not be zero''"
| "error_str IndexError = ''list index out of range''"
| "error_str (KeyError k) = [CHR 0x27] @ k @ [CHR 0x27]"
| "error_str (CollaboratorError msg) = msg"
| "error_str (HTTPException status detail) = str_nat status @ '': '' @ detail"

text \<open>
  A Python \<open>str\<close> is modelled as a \<open>string\<close> whose characters are the code points
  below 256. \<open>isspace\<close> lists the code points in that range that \<open>str.split()\<close> and
  \<open>str.strip()\<close> treat as whitespace.
\<close>

definition isspace :: "char \<Rightarrow> bool" where
  "isspace c \<longleftrightarrow> c \<in> set [CHR 0x09, CHR 0x0A, CHR 0x0B, CHR 0x0C, CHR 0x0D,
                         CHR 0x1C, CHR 0x1D, CHR 0x1E, CHR 0x1F, CHR 0x20,
                         CHR 0x85, CHR 0xA0]"

text \<open>\<open>text.split()\<close>: maximal runs of non-whitespace characters, in order.\<close>

fun split_aux :: "string \<Rightarrow> string \<Rightarrow> string list" where
  "split_aux cur [] = (if cur = [] then [] else [cur])"
| "split_aux cur (c # cs) =
     (if isspace c then (if cur = [] then split_aux [] cs else cur # split_aux [] cs)
      else split_aux (cur @ [c]) cs)"

definition split :: "string \<Rightarrow> string list" where
  "split text = split_aux [] text"

text \<open>\<open>sep.join(xs)\<close>.\<close>

fun join :: "string \<Rightarrow> string list \<Rightarrow> string" where
  "join sep [] = []"
| "join sep [x] = x"
| "join sep (x # y # ys) = x @ sep @ join sep (y # ys)"

text \<open>\<open>s.strip()\<close>: leading and trailing whitespace removed.\<close>

definition strip :: "string \<Rightarrow> string" where
  "strip s = rev (dropWhile isspace (rev (dropWhile isspace s)))"

text \<open>
  Slicing with step 1. \<open>adjust k n\<close> is the position a slice bound \<open>k\<close> denotes in a
  list of length \<open>n\<close>: a negative bound counts from the end, and every bound is clamped
  to \<open>0..n\<close>. \<open>py_slice xs i j\<close> is \<open>xs[i:j]\<close> and \<open>py_slice_from xs i\<close> is \<open>xs[i:]\<close>.
\<close>

definition adjust :: "int \<Rightarrow> nat \<Rightarrow> nat" where
  "adjust k n =
     (if k < 0 then (if k + int n < 0 then 0 else nat (k + int n))
      else if int n \<le> k then n else nat k)"

definition py_slice :: "'a list \<Rightarrow> int \<Rightarrow> int \<Rightarrow> 'a list" where
  "py_slice xs start stop =
     (let n = length xs; a = adjust start n; b = adjust stop n
      in take (b - a) (drop a xs))"

definition py_slice_from :: "'a list \<Rightarrow> int \<Rightarrow> 'a list" where
  "py_slice_from xs start = drop (adjust start (length xs)) xs"

text \<open>
  \<open>range(start, stop, step)\<close>: a zero step raises \<open>ValueError\<close>; a positive step counts
  up while below \<open>stop\<close>, a negative step counts down while above \<open>stop\<close>.
\<close>

function range_up :: "int \<Rightarrow> int \<Rightarrow> int \<Rightarrow> int list" where
  "range_up i stop step =
     (if 0 < step \<and> i < stop then i # range_up (i + step) stop step else [])"
  by pat_completeness auto
termination
  by (relation "measure (\<lambda>(i, stop, step). nat (stop - i))") auto

function range_down :: "int \<Rightarrow> int \<Rightarrow> int \<Rightarrow> int list" where
  "range_down i stop step =
     (if step < 0 \<and> stop < i then i # range_down (i + step) stop step else [])"
  by pat_completeness auto
termination
  by (relation "measure (\<lambda>(i, stop, step). nat (i - stop))") auto

declare range_up.simps [simp del]
declare range_down.simps [simp del]

definition py_range :: "int \<Rightarrow> int \<Rightarrow> int \<Rightarrow> error + int list" where
  "py_range start stop step =
     (if step = 0 then Inl ValueError
      else if 0 < step then Inr (range_up start stop step)
      else Inr (range_down start stop step))"

section \<open>Document service: chunking\<close>

text \<open>The defaults \<open>settings.CHUNK_SIZE\<close> and \<open>settings.CHUNK_OVERLAP\<close>.\<close>

definition CHUNK_SIZE :: int where
  "CHUNK_SIZE = 500"

definition CHUNK_OVERLAP :: int where
  "CHUNK_OVERLAP = 50"

text \<open>
  The body of the \<open>for i in range(...)\<close> loop of \<open>chunk_text\<close>, run over the offsets in
  order with the list \<open>chunks\<close> built so far.
\<close>

fun chunk_loop :: "string list \<Rightarrow> int \<Rightarrow> int list \<Rightarrow> string list \<Rightarrow> string list" where
  "chunk_loop words chunk_size [] chunks = chunks"
| "chunk_loop words chunk_size (i # is) chunks =
     (let chunk = join '' '' (py_slice words i (i + chunk_size))
      in chunk_loop words chunk_size is
           (if strip chunk \<noteq> [] then chunks @ [chunk] else chunks))"

definition chunk_text :: "string \<Rightarrow> int option \<Rightarrow> int option \<Rightarrow> error + string list" where
  "chunk_text text chunk_size overlap =
     (let chunk_size = (case chunk_size of None \<Rightarrow> CHUNK_SIZE | Some c \<Rightarrow> c);
          overlap = (case overlap of None \<Rightarrow> CHUNK_OVERLAP | Some v \<Rightarrow> v);
          words = split text
      in case py_range 0 (int (length words)) (chunk_size - overlap) of
           Inl e \<Rightarrow> Inl e
         | Inr offsets \<Rightarrow> Inr (chunk_loop words chunk_size offsets []))"

text \<open>
  The chunker as the specification words it, over the word sequence: the window starts
  are \<open>0, step, 2 * step, \<dots>\<close> below the number of words, each window holds up to
  \<open>chunk_size\<close> words, empty windows are dropped and the others joined with single
  spaces.
\<close>

definition spec_offsets :: "nat \<Rightarrow> nat \<Rightarrow> nat list" where
  "spec_offsets n step = map (\<lambda>k. k * step) [0..<(n + step - 1) div step]"

definition spec_chunks :: "string list \<Rightarrow> nat \<Rightarrow> nat \<Rightarrow> string list" where
  "spec_chunks words chunk_size step =
     map (join '' '')
       (filter (\<lambda>w. w \<noteq> [])
          (map (\<lambda>i. take chunk_size (drop i words)) (spec_offsets (length words) step)))"

text \<open>A word as \<open>split\<close> produces it: not empty and free of whitespace.\<close>

definition proper_word :: "string \<Rightarrow> bool" where
  "proper_word w \<longleftrightarrow> w \<noteq> [] \<and> (\<forall>c\<in>set w. \<not> isspace c)"

section \<open>Session memory service\<close>

text \<open>
  Instants (\<open>datetime\<close>) and durations (\<open>timedelta\<close>) are integers counting
  microseconds. Every service call takes the instant \<open>now\<close> at which it runs; all
  \<open>datetime.now()\<close> reads made during that call return it.
\<close>

record message =
  role :: string
  content :: string
  timestamp :: int

record conversation_session =
  session_id :: string
  messages :: "message list"
  max_history :: int
  created_at :: int
  last_access :: int

text \<open>\<open>Message(role, content)\<close> and \<open>ConversationSession(session_id, max_history)\<close>.\<close>

definition Message :: "string \<Rightarrow> string \<Rightarrow> int \<Rightarrow> message" where
  "Message r c now = \<lparr>role = r, content = c, timestamp = now\<rparr>"

definition ConversationSession :: "string \<Rightarrow> int \<Rightarrow> int \<Rightarrow> conversation_session" where
  "ConversationSession sid mh now =
     \<lparr>session_id = sid, messages = [], max_history = mh, created_at = now, last_access = now\<rparr>"

text \<open>\<open>ConversationSession.add_message\<close>, \<open>get_history\<close> and \<open>clear\<close>.\<close>

definition session_add_message ::
  "string \<Rightarrow> string \<Rightarrow> int \<Rightarrow> conversation_session \<Rightarrow> conversation_session" where
  "session_add_message r c now s =
     (let s1 = s\<lparr>messages := messages s @ [Message r c now]\<rparr>;
          s2 = s1\<lparr>last_access := now\<rparr>
      in if int (length (messages s2)) > max_history s2
         then s2\<lparr>messages := py_slice_from (messages s2) (- max_history s2)\<rparr>
         else s2)"

definition session_get_history :: "conversation_session \<Rightarrow> int option \<Rightarrow> message list" where
  "session_get_history s last_n =
     (case last_n of None \<Rightarrow> messages s
      | Some n \<Rightarrow> py_slice_from (messages s) (- n))"

definition session_clear :: "conversation_session \<Rightarrow> conversation_session" where
  "session_clear s = s\<lparr>messages := []\<rparr>"

text \<open>A sequence of \<open>add_message\<close> calls on one session, given as (role, content, instant).\<close>

fun add_messages :: "(string \<times> string \<times> int) list \<Rightarrow> conversation_session \<Rightarrow> conversation_session" where
  "add_messages [] s = s"
| "add_messages ((r, c, now) # rest) s = add_messages rest (session_add_message r c now s)"

text \<open>
  The service object. The dictionary \<open>sessions\<close> holds the session objects; a key of
  the dictionary is the reference to the object stored under it.
\<close>

record session_memory_service =
  sessions :: "string \<rightharpoonup> conversation_session"
  max_history_per_session :: int
  session_timeout :: int


definition session_memory_service :: session_memory_service where
  "session_memory_service =
     \<lparr>sessions = Map.empty, max_history_per_session = 10, session_timeout = 86400000000\<rparr>"

text \<open>
  \<open>create_session\<close>: \<open>uuid\<close> is the value of \<open>str(uuid.uuid4())\<close> drawn by the call.
\<close>

definition create_session ::
  "string \<Rightarrow> int \<Rightarrow> session_memory_service \<Rightarrow> string \<times> session_memory_service" where
  "create_session uuid now svc =
     (let session = ConversationSession uuid (max_history_per_session svc) now
      in (uuid, svc\<lparr>sessions := (sessions svc)(uuid \<mapsto> session)\<rparr>))"

text \<open>
  \<open>get_session\<close> returns the session object: its key in \<open>sessions\<close> together with its
  value after the call. On the creating path the object is read back from the registry,
  \<open>self.sessions[new_session_id]\<close>, which raises \<open>KeyError\<close> when the registry has no such
  key; the registry is then as \<open>create_session\<close> left it.
\<close>

definition get_session ::
  "string option \<Rightarrow> string \<Rightarrow> int \<Rightarrow> session_memory_service
     \<Rightarrow> (error + string \<times> conversation_session) \<times> session_memory_service" where
  "get_session sid uuid now svc =
     (case (case sid of None \<Rightarrow> None
            | Some k \<Rightarrow> (case sessions svc k of None \<Rightarrow> None | Some s \<Rightarrow> Some (k, s))) of
        None \<Rightarrow>
          (let (new_session_id, svc1) = create_session uuid now svc
           in case sessions svc1 new_session_id of
                None \<Rightarrow> (Inl (KeyError new_session_id), svc1)
              | Some session \<Rightarrow> (Inr (new_session_id, session), svc1))
      | Some (k, session) \<Rightarrow>
          if now - last_access session > session_timeout svc
          then (let cleared = session_clear session
                in (Inr (k, cleared), svc\<lparr>sessions := (sessions svc)(k \<mapsto> cleared)\<rparr>))
          else (Inr (k, session), svc))"

text \<open>
  \<open>SessionMemoryService.add_message\<close>: the message is added to the object that
  \<open>get_session\<close> returned, in place, and \<open>session.session_id\<close> is returned. An exception
  of \<open>get_session\<close> propagates.
\<close>

definition add_message ::
  "string option \<Rightarrow> string \<Rightarrow> string \<Rightarrow> string \<Rightarrow> int \<Rightarrow> session_memory_service
     \<Rightarrow> (error + string) \<times> session_memory_service" where
  "add_message sid r c uuid now svc =
     (case get_session sid uuid now svc of
        (Inl e, svc1) \<Rightarrow> (Inl e, svc1)
      | (Inr (k, session), svc1) \<Rightarrow>
          (let session' = session_add_message r c now session
           in (Inr (session_id session'),
               svc1\<lparr>sessions := (sessions svc1)(k \<mapsto> session')\<rparr>)))"

definition get_conversation_history ::
  "session_memory_service \<Rightarrow> string option \<Rightarrow> int option \<Rightarrow> message list" where
  "get_conversation_history svc sid last_n =
     (case sid of None \<Rightarrow> []
      | Some k \<Rightarrow> (case sessions svc k of None \<Rightarrow> []
                   | Some session \<Rightarrow> session_get_history session last_n))"

text \<open>
  \<open>str.capitalize()\<close> on strings of ASCII characters: the letters \<open>a\<close> to \<open>z\<close> and \<open>A\<close>
  to \<open>Z\<close> change case, every other character is kept (Python also changes the case of
  letters beyond ASCII, which this definition leaves as they are). The roles written by
  the chat route are \<open>user\<close> and \<open>assistant\<close>.
\<close>

definition upper_char :: "char \<Rightarrow> char" where
  "upper_char c =
     (let n = of_char c :: nat in if 97 \<le> n \<and> n \<le> 122 then char_of (n - 32) else c)"

definition lower_char :: "char \<Rightarrow> char" where
  "lower_char c =
     (let n = of_char c :: nat in if 65 \<le> n \<and> n \<le> 90 then char_of (n + 32) else c)"

fun capitalize :: "string \<Rightarrow> string" where
  "capitalize [] = []"
| "capitalize (c # cs) = upper_char c # map lower_char cs"

definition get_conversation_context ::
  "session_memory_service \<Rightarrow> string option \<Rightarrow> int option \<Rightarrow> string" where
  "get_conversation_context svc sid last_n =
     (let msgs = get_conversation_history svc sid last_n
      in if msgs = [] then []
         else join [CHR 0x0A]
                (''Previous conversation:'' #
                 map (\<lambda>msg. capitalize (role msg) @ '': '' @ content msg) msgs))"

definition clear_session :: "string \<Rightarrow> session_memory_service \<Rightarrow> session_memory_service" where
  "clear_session k svc =
     (case sessions svc k of None \<Rightarrow> svc
      | Some session \<Rightarrow> svc\<lparr>sessions := (sessions svc)(k \<mapsto> session_clear session)\<rparr>)"

definition delete_session :: "string \<Rightarrow> session_memory_service \<Rightarrow> session_memory_service" where
  "delete_session k svc =
     (case sessions svc k of None \<Rightarrow> svc
      | Some session \<Rightarrow> svc\<lparr>sessions := (sessions svc)(k := None)\<rparr>)"

section \<open>Chat route\<close>

text \<open>
  \<open>ChatRequest\<close>, \<open>ChatResponse\<close> and one entry of the list returned by
  \<open>vectordb_service.search\<close> (a dictionary with the keys \<open>text\<close>, \<open>source\<close>, \<open>chunk_id\<close>
  and \<open>score\<close>; the payload's \<open>chunk_id\<close> is the integer position written at indexing).
\<close>

record chat_request =
  query :: string
  top_k :: "int option"
  request_session_id :: "string option"

record chat_response =
  answer :: string
  sources :: "string list"
  response_session_id :: string

record search_result =
  result_text :: string
  result_source :: string
  result_chunk_id :: int
  result_score :: real

text \<open>
  The three external services the route calls. Each is a function from the arguments
  of the call to its outcome, an exception or a value. \<open>call\<close> records one call made to
  them, and the route returns the calls it made, in order.
\<close>

record collaborators =
  generate_embeddings :: "string list \<Rightarrow> error + real list list"
  search :: "real list \<Rightarrow> int option \<Rightarrow> error + search_result list"
  generate_response :: "string \<Rightarrow> string \<Rightarrow> string option \<Rightarrow> error + string"

datatype call =
    EmbedCall "string list"
  | SearchCall "real list" "int option"
  | GenerateCall string string "string option"

text \<open>The label \<open>f"{result['source']} (chunk {result['chunk_id']})"\<close>.\<close>

definition source_label :: "search_result \<Rightarrow> string" where
  "source_label result =
     result_source result @ '' (chunk '' @ str_int (result_chunk_id result) @ '')''"

text \<open>
  The loop \<open>for result in search_results\<close> of \<open>chat\<close>, with the lists \<open>context_parts\<close>
  and \<open>sources\<close> built so far.
\<close>

fun chat_loop ::
  "search_result list \<Rightarrow> string list \<Rightarrow> string list \<Rightarrow> string list \<times> string list" where
  "chat_loop [] context_parts srcs = (context_parts, srcs)"
| "chat_loop (result # rest) context_parts srcs =
     (let context_parts' = context_parts @ [result_text result];
          source = source_label result
      in chat_loop rest context_parts'
           (if source \<notin> set srcs then srcs @ [source] else srcs))"

definition fallback_answer :: string where
  "fallback_answer =
     ''I don'' @ [CHR 0x27] @
     ''t have enough information to answer this question. Please index some documents first.''"

text \<open>
  \<open>chat\<close>: the two \<open>add_message\<close> calls of a request run at the instants \<open>now1\<close> and
  \<open>now2\<close> and draw \<open>uuid1\<close> and \<open>uuid2\<close>. Any exception raised in the body, by a service
  or by \<open>add_message\<close>, is caught and raised again as \<open>HTTPException(500, str(e))\<close>; the
  registry is then as the body left it.
\<close>

definition chat ::
  "collaborators \<Rightarrow> chat_request \<Rightarrow> string \<Rightarrow> int \<Rightarrow> string \<Rightarrow> int \<Rightarrow> session_memory_service
     \<Rightarrow> (error + chat_response) \<times> session_memory_service \<times> call list" where
  "chat env request uuid1 now1 uuid2 now2 svc =
     (let calls1 = [EmbedCall [query request]] in
      case generate_embeddings env [query request] of
        Inl e \<Rightarrow> (Inl (HTTPException 500 (error_str e)), svc, calls1)
      | Inr [] \<Rightarrow> (Inl (HTTPException 500 (error_str IndexError)), svc, calls1)
      | Inr (query_embedding # _) \<Rightarrow>
         (let calls2 = calls1 @ [SearchCall query_embedding (top_k request)] in
          case search env query_embedding (top_k request) of
            Inl e \<Rightarrow> (Inl (HTTPException 500 (error_str e)), svc, calls2)
          | Inr search_results \<Rightarrow>
             if search_results = [] then
               (let ans = fallback_answer in
                case add_message (request_session_id request) ''user'' (query request)
                       uuid1 now1 svc of
                  (Inl e, svc1) \<Rightarrow> (Inl (HTTPException 500 (error_str e)), svc1, calls2)
                | (Inr sid, svc1) \<Rightarrow>
                   (case add_message (Some sid) ''assistant'' ans uuid2 now2 svc1 of
                      (Inl e, svc2) \<Rightarrow> (Inl (HTTPException 500 (error_str e)), svc2, calls2)
                    | (Inr _, svc2) \<Rightarrow>
                       (Inr \<lparr>answer = ans, sources = [], response_session_id = sid\<rparr>,
                        svc2, calls2)))
             else
               (let (context_parts, srcs) = chat_loop search_results [] [];
                    context = join [CHR 0x0A, CHR 0x0A] context_parts;
                    conversation_history =
                       get_conversation_context svc (request_session_id request) (Some 5);
                    history_arg =
                       (if conversation_history \<noteq> [] then Some conversation_history
                        else None);
                    calls3 = calls2 @ [GenerateCall (query request) context history_arg]
                in case generate_response env (query request) context history_arg of
                     Inl e \<Rightarrow> (Inl (HTTPException 500 (error_str e)), svc, calls3)
                   | Inr ans \<Rightarrow>
                      (case add_message (request_session_id request) ''user''
                              (query request) uuid1 now1 svc of
                         (Inl e, svc1) \<Rightarrow>
                            (Inl (HTTPException 500 (error_str e)), svc1, calls3)
                       | (Inr sid, svc1) \<Rightarrow>
                          (case add_message (Some sid) ''assistant'' ans uuid2 now2 svc1 of
                             (Inl e, svc2) \<Rightarrow>
                                (Inl (HTTPException 500 (error_str e)), svc2, calls3)
                           | (Inr _, svc2) \<Rightarrow>
                              (Inr \<lparr>answer = ans, sources = srcs,
                                    response_session_id = sid\<rparr>,
                               svc2, calls3))))))"

text \<open>
  Every session object is stored under its own identifier. The registry starts empty
  and every operation of the service keeps this.
\<close>

definition wf_registry :: "session_memory_service \<Rightarrow> bool" where
  "wf_registry svc \<longleftrightarrow> (\<forall>k s. sessions svc k = Some s \<longrightarrow> session_id s = k)"

text \<open>
  Deduplication in first-seen order, as the specification words it: the first
  occurrence of every element is kept and all later equal elements are dropped.
\<close>

fun first_seen :: "'a list \<Rightarrow> 'a list" where
  "first_seen [] = []"
| "first_seen (x # xs) = x # first_seen (filter (\<lambda>y. y \<noteq> x) xs)"

section \<open>Example data\<close>

text \<open>
  A registry with one session last used at instant 0 and a timeout of 24 hours, three
  search results of which the first and the last name the same chunk, services that
  answer every call, and a request without session identifier.
\<close>

definition example_session :: conversation_session where
  "example_session =
     \<lparr>session_id = ''s1'', messages = [Message ''user'' ''hi'' 0], max_history = 10,
      created_at = 0, last_access = 0\<rparr>"

definition example_service :: session_memory_service where
  "example_service =
     \<lparr>sessions = [''s1'' \<mapsto> example_session], max_history_per_session = 10,
      session_timeout = 86400000000\<rparr>"

definition example_results :: "search_result list" where
  "example_results =
     [\<lparr>result_text = ''t1'', result_source = ''a.txt'', result_chunk_id = 0, result_score = 1\<rparr>,
      \<lparr>result_text = ''t2'', result_source = ''a.txt'', result_chunk_id = 1, result_score = 1\<rparr>,
      \<lparr>result_text = ''t1'', result_source = ''a.txt'', result_chunk_id = 0, result_score = 1\<rparr>]"

definition example_env :: collaborators where
  "example_env =
     \<lparr>generate_embeddings = (\<lambda>texts. Inr (map (\<lambda>_. [0]) texts)),
      search = (\<lambda>query_embedding k. Inr example_results),
      generate_response = (\<lambda>q context history. Inr (''answer to '' @ q))\<rparr>"

definition example_request :: chat_request where
  "example_request = \<lparr>query = ''q?'', top_k = Some 3, request_session_id = None\<rparr>"

section \<open>Properties of the chunker\<close>

lemma split_aux_proper:
  "(\<forall>c\<in>set cur. \<not> isspace c) \<Longrightarrow> w \<in> set (split_aux cur cs) \<Longrightarrow> proper_word w"
proof (induction cs arbitrary: cur)
  case Nil
  then show ?case by (auto simp: proper_word_def split: if_splits)
next
  case (Cons a cs)
  show ?case
  proof (cases "isspace a")
    case True
    then have "w = cur \<and> cur \<noteq> [] \<or> w \<in> set (split_aux [] cs)"
      using Cons.prems(2) by (auto split: if_splits)
    then show ?thesis
      using Cons.prems(1) Cons.IH [of "[]"] by (auto simp: proper_word_def)
  next
    case False
    then have "w \<in> set (split_aux (cur @ [a]) cs)"
      using Cons.prems(2) by simp
    moreover have "\<forall>c\<in>set (cur @ [a]). \<not> isspace c"
      using False Cons.prems(1) by simp
    ultimately show ?thesis using Cons.IH by blast
  qed
qed

lemma split_proper: "w \<in> set (split text) \<Longrightarrow> proper_word w"
  unfolding split_def using split_aux_proper [of "[]"] by simp

lemma strip_Nil_iff: "strip s = [] \<longleftrightarrow> (\<forall>c\<in>set s. isspace c)"
proof
  assume "strip s = []"
  then have *: "\<forall>c\<in>set (dropWhile isspace s). isspace c"
    by (simp add: strip_def dropWhile_eq_Nil_conv)
  show "\<forall>c\<in>set s. isspace c"
  proof (cases "dropWhile isspace s")
    case Nil
    then show ?thesis by (simp add: dropWhile_eq_Nil_conv)
  next
    case (Cons a as)
    then have "\<not> isspace a" using hd_dropWhile [of isspace s] by simp
    with * Cons show ?thesis by simp
  qed
next
  assume "\<forall>c\<in>set s. isspace c"
  then show "strip s = []" by (auto simp: strip_def dest: set_dropWhileD)
qed

lemma hd_join: "ws \<noteq> [] \<Longrightarrow> hd ws \<noteq> [] \<Longrightarrow> join sep ws \<noteq> [] \<and> hd (join sep ws) = hd (hd ws)"
  by (induction sep ws rule: join.induct) auto


lemma strip_join_proper:
  assumes "\<forall>w\<in>set ws. proper_word w"
  shows "strip (join '' '' ws) \<noteq> [] \<longleftrightarrow> ws \<noteq> []"
proof (cases ws)
  case Nil
  then show ?thesis by (simp add: strip_def)
next
  case (Cons w ws')
  with assms have pw: "proper_word w" by simp
  then have wne: "w \<noteq> []" by (simp add: proper_word_def)
  with Cons have j: "join '' '' ws \<noteq> []" "hd (join '' '' ws) = hd w"
    using hd_join [of ws "'' ''"] by simp_all
  from pw wne have "\<not> isspace (hd w)" by (simp add: proper_word_def)
  with j hd_in_set [OF j(1)]
  have "hd (join '' '' ws) \<in> set (join '' '' ws)" "\<not> isspace (hd (join '' '' ws))"
    by simp_all
  then have "strip (join '' '' ws) \<noteq> []"
    unfolding strip_Nil_iff by blast
  then show ?thesis using Cons by simp
qed

lemma chunk_loop_filter:
  "chunk_loop words cs offs acc =
     acc @ filter (\<lambda>c. strip c \<noteq> []) (map (\<lambda>i. join '' '' (py_slice words i (i + cs))) offs)"
  by (induction offs arbitrary: acc) (simp_all add: Let_def)

lemma set_py_slice: "set (py_slice xs i j) \<subseteq> set xs"
proof -
  have "set (take m (drop a xs)) \<subseteq> set xs" for m a
    using set_take_subset [of m "drop a xs"] set_drop_subset [of a xs] by blast
  then show ?thesis by (simp add: py_slice_def Let_def)
qed

lemma py_slice_window:
  assumes "0 \<le> i" "0 \<le> n"
  shows "py_slice xs i (i + n) = take (nat n) (drop (nat i) xs)"
proof (cases "int (length xs) \<le> i")
  case True
  then show ?thesis using assms by (simp add: py_slice_def adjust_def Let_def)
next
  case False
  then show ?thesis using assms
    by (auto simp: py_slice_def adjust_def Let_def nat_add_distrib)
qed

lemma div_step_nonpos: "0 < (step::int) \<Longrightarrow> x < step \<Longrightarrow> x div step \<le> 0"
proof -
  assume "0 < step" "x < step"
  then have "x div step \<le> (step - 1) div step"
    by (intro zdiv_mono1) simp_all
  also have "(step - 1) div step = 0"
    using \<open>0 < step\<close> by (simp add: div_pos_pos_trivial)
  finally show ?thesis .
qed

lemma range_up_map:
  "0 < step \<Longrightarrow>
   range_up i stop step = map (\<lambda>k. i + int k * step) [0..<nat ((stop - i + step - 1) div step)]"
proof (induction i stop step rule: range_up.induct)
  case (1 i stop step)
  show ?case
  proof (cases "i < stop")
    case True
    have "stop - i + step - 1 = (stop - (i + step) + step - 1) + step" by simp
    then have "(stop - i + step - 1) div step = (stop - (i + step) + step - 1) div step + 1"
      using 1(2) by (metis div_add_self2 less_irrefl)
    moreover have "0 \<le> (stop - (i + step) + step - 1) div step"
      using True 1(2) by (simp add: pos_imp_zdiv_nonneg_iff)
    ultimately have n: "nat ((stop - i + step - 1) div step) = Suc (nat ((stop - (i + step) + step - 1) div step))"
      by simp
    have "range_up i stop step = i # range_up (i + step) stop step"
      using True 1(2) by (simp add: range_up.simps [of i])
    also have "\<dots> = i # map (\<lambda>k. (i + step) + int k * step) [0..<nat ((stop - (i + step) + step - 1) div step)]"
      using 1 True by simp
    also have "\<dots> = map (\<lambda>k. i + int k * step) [0..<nat ((stop - i + step - 1) div step)]"
      unfolding n by (simp add: upt_conv_Cons map_Suc_upt [symmetric] algebra_simps del: upt_Suc)
    finally show ?thesis .
  next
    case False
    then have "stop - i + step - 1 < step" by simp
    then have "(stop - i + step - 1) div step \<le> 0"
      using 1(2) div_step_nonpos by blast
    then show ?thesis using False by (simp add: range_up.simps [of i])
  qed
qed


lemma split_aux_nonspace:
  "(\<forall>c\<in>set w. \<not> isspace c) \<Longrightarrow> split_aux cur (w @ rest) = split_aux (cur @ w) rest"
  by (induction w arbitrary: cur) simp_all

lemma isspace_space: "isspace (CHR '' '')"
  by (simp add: isspace_def)

lemma split_join:
  "(\<forall>w\<in>set ws. proper_word w) \<Longrightarrow> split (join '' '' ws) = ws"
proof (induction "'' ''" ws rule: join.induct)
  case 1
  then show ?case by (simp add: split_def)
next
  case (2 x)
  then have "x \<noteq> []" "\<forall>c\<in>set x. \<not> isspace c" by (simp_all add: proper_word_def)
  then show ?case
    using split_aux_nonspace [of x "[]" "[]"] by (simp add: split_def)
next
  case (3 x y ys)
  then have x: "x \<noteq> []" "\<forall>c\<in>set x. \<not> isspace c" by (simp_all add: proper_word_def)
  from 3 have IH: "split_aux [] (join '' '' (y # ys)) = y # ys" by (simp add: split_def)
  have "split_aux [] (x @ '' '' @ join '' '' (y # ys)) = split_aux x ('' '' @ join '' '' (y # ys))"
    using split_aux_nonspace [OF x(2), of "[]"] by simp
  also have "\<dots> = x # split_aux [] (join '' '' (y # ys))"
    using x(1) isspace_space by simp
  finally show ?case using IH by (simp add: split_def)
qed

lemma range_up_spec_offsets:
  assumes "0 < step"
  shows "range_up 0 (int n) step = map int (spec_offsets n (nat step))"
proof -
  have s: "int (nat step) = step" "1 \<le> nat step" using assms by simp_all
  have "int ((n + nat step - 1) div nat step) = (int n + step - 1) div step"
    using s by (simp add: zdiv_int of_nat_diff)
  then have "nat ((int n - 0 + step - 1) div step) = (n + nat step - 1) div nat step"
    by (metis diff_zero nat_int)
  then show ?thesis
    using range_up_map [OF assms, of 0 "int n"] s(1)
    by (simp add: spec_offsets_def comp_def)
qed

lemma filter_windows:
  assumes "\<forall>w\<in>set words. proper_word w"
  shows "filter (\<lambda>c. strip c \<noteq> []) (map (\<lambda>i. join '' '' (take m (drop i words))) offs) =
         map (join '' '') (filter (\<lambda>w. w \<noteq> []) (map (\<lambda>i. take m (drop i words)) offs))"
proof -
  have "\<forall>w\<in>set (take m (drop i words)). proper_word w" for i
    using assms by (meson in_set_dropD in_set_takeD)
  then have "strip (join '' '' (take m (drop i words))) \<noteq> [] \<longleftrightarrow> take m (drop i words) \<noteq> []" for i
    by (rule strip_join_proper)
  then show ?thesis by (induction offs) simp_all
qed

lemma chunk_text_spec:
  assumes "0 \<le> chunk_size" "overlap < chunk_size"
  shows "chunk_text text (Some chunk_size) (Some overlap) =
           Inr (spec_chunks (split text) (nat chunk_size) (nat (chunk_size - overlap)))"
proof -
  let ?words = "split text" and ?step = "chunk_size - overlap"
  have step: "0 < ?step" using assms by simp
  have r: "py_range 0 (int (length ?words)) ?step = Inr (map int (spec_offsets (length ?words) (nat ?step)))"
    using step range_up_spec_offsets [OF step] by (simp add: py_range_def)
  have w: "\<forall>w\<in>set ?words. proper_word w" using split_proper by blast
  have "chunk_loop ?words chunk_size (map int offs) [] =
          filter (\<lambda>c. strip c \<noteq> []) (map (\<lambda>i. join '' '' (take (nat chunk_size) (drop i ?words))) offs)" for offs
    using assms(1) by (simp add: chunk_loop_filter py_slice_window comp_def)
  then have "chunk_loop ?words chunk_size (map int (spec_offsets (length ?words) (nat ?step))) [] =
          spec_chunks ?words (nat chunk_size) (nat ?step)"
    unfolding spec_chunks_def using filter_windows [OF w] by simp
  then show ?thesis using r by (simp add: chunk_text_def)
qed

lemma sorted_spec_offsets: "0 < step \<Longrightarrow> sorted_wrt (<) (spec_offsets n step)"
  by (simp add: spec_offsets_def sorted_wrt_map sorted_wrt_upt [THEN sorted_wrt_mono_rel, rotated])

lemma spec_offsets_below: "0 < step \<Longrightarrow> i \<in> set (spec_offsets n step) \<Longrightarrow> i < n"
proof -
  assume s: "0 < step" and "i \<in> set (spec_offsets n step)"
  then obtain k where k: "i = k * step" "k < (n + step - 1) div step"
    by (auto simp: spec_offsets_def)
  then have "Suc k * step \<le> (n + step - 1) div step * step"
    by (intro mult_le_mono1) simp
  also have "\<dots> \<le> n + step - 1"
    by (rule div_times_less_eq_dividend)
  finally show "i < n" using k(1) s by simp
qed

lemma spec_chunks_words:
  assumes "\<forall>w\<in>set words. proper_word w" "c \<in> set (spec_chunks words m step)"
  shows "c \<noteq> [] \<and> length (split c) \<le> m"
proof -
  from assms(2) obtain i where c: "c = join '' '' (take m (drop i words))" "take m (drop i words) \<noteq> []"
    by (auto simp: spec_chunks_def)
  have p: "\<forall>w\<in>set (take m (drop i words)). proper_word w"
    using assms(1) by (meson in_set_dropD in_set_takeD)
  then have "split c = take m (drop i words)" using c(1) split_join by simp
  moreover have "strip c \<noteq> []" using strip_join_proper [OF p] c by simp
  ultimately show ?thesis by (auto simp: strip_def)
qed


lemma range_down_empty: "stop \<ge> i \<Longrightarrow> range_down i stop step = []"
  by (simp add: range_down.simps [of i])

text \<open>
  C1 (as amended). When \<open>overlap \<ge> chunk_size\<close> the chunker terminates without
  emitting a chunk: it raises \<open>ValueError\<close> when the two are equal (the step of \<open>range\<close> is
  zero), and returns the empty list without any error when the overlap is larger
  (the step is negative and the range is empty).
\<close>

theorem chunk_text_nonpositive_step:
  assumes "chunk_size \<le> overlap"
  shows "chunk_text text (Some chunk_size) (Some overlap) =
           (if overlap = chunk_size then Inl ValueError else Inr [])"
  using assms by (simp add: chunk_text_def py_range_def range_down_empty)

theorem chunk_text_nonpositive_step_witness:
  "(2::int) \<le> 2 \<and> chunk_text ''a b'' (Some 2) (Some 2) = Inl ValueError"
  using chunk_text_nonpositive_step [of 2 2 "''a b''"] by simp

theorem chunk_text_negative_step_no_error:
  "(1::int) \<le> 2 \<and> chunk_text ''a b'' (Some 1) (Some 2) = Inr []"
  by code_simp

text \<open>
  C8 (as amended). For \<open>0 \<le> chunk_size\<close> and \<open>overlap < chunk_size\<close> the chunker
  returns, without error, the chunks of the specification: the text is split at
  whitespace into words, the loop runs over the offsets \<open>0, step, 2 * step, \<dots>\<close> below the
  number of words (\<open>step = chunk_size - overlap\<close>), which are strictly increasing, the
  window at an offset holds the next \<open>chunk_size\<close> words at most, empty windows are
  dropped and the others are joined with single spaces, so that every chunk splits
  back into at most \<open>chunk_size\<close> words. Six words with \<open>chunk_size = 4\<close> and
  \<open>overlap = 1\<close> give the two chunks of words 0 to 3 and 3 to 5.
\<close>

theorem chunk_text_windows:
  assumes "0 \<le> chunk_size" and "overlap < chunk_size"
  shows "chunk_text text (Some chunk_size) (Some overlap) =
           Inr (spec_chunks (split text) (nat chunk_size) (nat (chunk_size - overlap)))
       \<and> py_range 0 (int (length (split text))) (chunk_size - overlap) =
           Inr (map int (spec_offsets (length (split text)) (nat (chunk_size - overlap))))
       \<and> sorted_wrt (<) (spec_offsets (length (split text)) (nat (chunk_size - overlap)))
       \<and> (\<forall>i\<in>set (spec_offsets (length (split text)) (nat (chunk_size - overlap))).
             i < length (split text))
       \<and> (\<forall>w\<in>set (split text). proper_word w)
       \<and> (\<forall>c\<in>set (spec_chunks (split text) (nat chunk_size) (nat (chunk_size - overlap))).
             c \<noteq> [] \<and> length (split c) \<le> nat chunk_size)
       \<and> chunk_text ''w0 w1 w2 w3 w4 w5'' (Some 4) (Some 1) =
           Inr [''w0 w1 w2 w3'', ''w3 w4 w5'']"
proof -
  let ?step = "chunk_size - overlap"
  have step: "0 < ?step" "0 < nat ?step" using assms by simp_all
  have w: "\<forall>w\<in>set (split text). proper_word w" using split_proper by blast
  have 1: "chunk_text text (Some chunk_size) (Some overlap) =
           Inr (spec_chunks (split text) (nat chunk_size) (nat ?step))"
    using assms by (rule chunk_text_spec)
  have 2: "py_range 0 (int (length (split text))) ?step =
           Inr (map int (spec_offsets (length (split text)) (nat ?step)))"
    using step(1) range_up_spec_offsets [OF step(1)] by (simp add: py_range_def)
  have 3: "sorted_wrt (<) (spec_offsets (length (split text)) (nat ?step))"
    using step(2) by (rule sorted_spec_offsets)
  have 4: "\<forall>i\<in>set (spec_offsets (length (split text)) (nat ?step)). i < length (split text)"
    using spec_offsets_below [OF step(2)] by blast
  have 5: "\<forall>c\<in>set (spec_chunks (split text) (nat chunk_size) (nat ?step)).
             c \<noteq> [] \<and> length (split c) \<le> nat chunk_size"
    using spec_chunks_words [OF w] by blast
  have 6: "chunk_text ''w0 w1 w2 w3 w4 w5'' (Some 4) (Some 1) =
           Inr [''w0 w1 w2 w3'', ''w3 w4 w5'']"
    by code_simp
  from 1 2 3 4 w 5 6 show ?thesis by (intro conjI)
qed

theorem chunk_text_windows_witness:
  "(0::int) \<le> 4 \<and> (1::int) < 4
   \<and> chunk_text ''w0 w1 w2 w3 w4 w5'' (Some 4) (Some 1) =
       Inr (spec_chunks (split ''w0 w1 w2 w3 w4 w5'') (nat 4) (nat (4 - 1)))
   \<and> spec_chunks (split ''w0 w1 w2 w3 w4 w5'') (nat 4) (nat (4 - 1)) =
       [''w0 w1 w2 w3'', ''w3 w4 w5'']
   \<and> spec_offsets (length (split ''w0 w1 w2 w3 w4 w5'')) (nat (4 - 1)) = [0, 3]"
proof -
  have h1: "(0::int) \<le> 4" and h2: "(1::int) < 4" by simp_all
  have e: "spec_chunks (split ''w0 w1 w2 w3 w4 w5'') (nat 4) (nat (4 - 1)) =
       [''w0 w1 w2 w3'', ''w3 w4 w5'']"
    by code_simp
  have o: "spec_offsets (length (split ''w0 w1 w2 w3 w4 w5'')) (nat (4 - 1)) = [0, 3]"
    by code_simp
  from chunk_text_windows [OF h1 h2, of "''w0 w1 w2 w3 w4 w5''"] h1 h2 e o
  show ?thesis by blast
qed

theorem chunk_text_negative_chunk_size:
  "(- 5 :: int) < - 1
   \<and> chunk_text ''a b c'' (Some (- 1)) (Some (- 5)) = Inr [''a b'']
   \<and> \<not> int (length (split ''a b'')) \<le> - 1"
  by code_simp

section \<open>Properties of the session store\<close>

subsection \<open>One session\<close>

lemma session_add_message_fields [simp]:
  "session_id (session_add_message r c now s) = session_id s"
  "max_history (session_add_message r c now s) = max_history s"
  "created_at (session_add_message r c now s) = created_at s"
  "last_access (session_add_message r c now s) = now"
  by (simp_all add: session_add_message_def Let_def)

lemma session_add_message_messages:
  "messages (session_add_message r c now s) =
     (if int (length (messages s)) + 1 > max_history s
      then py_slice_from (messages s @ [Message r c now]) (- max_history s)
      else messages s @ [Message r c now])"
  by (simp add: session_add_message_def Let_def)

lemma py_slice_from_last:
  "1 \<le> n \<Longrightarrow> py_slice_from xs (- n) = drop (length xs - nat n) xs"
  by (auto simp: py_slice_from_def adjust_def nat_diff_distrib' intro!: arg_cong2 [where f = drop])

lemma py_slice_from_zero: "py_slice_from xs 0 = xs"
  by (simp add: py_slice_from_def adjust_def)

lemma session_add_message_bounded:
  assumes "1 \<le> max_history s"
  shows "messages (session_add_message r c now s) =
           drop (Suc (length (messages s)) - nat (max_history s)) (messages s @ [Message r c now])"
    and "int (length (messages (session_add_message r c now s))) \<le> max_history s"
  using assms by (auto simp: session_add_message_messages py_slice_from_last)

lemma session_add_message_unbounded:
  assumes "max_history s = 0"
  shows "messages (session_add_message r c now s) = messages s @ [Message r c now]"
  using assms by (simp add: session_add_message_messages py_slice_from_zero)




lemma add_messages_fields [simp]:
  "max_history (add_messages ms s) = max_history s"
  "session_id (add_messages ms s) = session_id s"
  by (induction ms s rule: add_messages.induct) simp_all

lemma drop_tail_window:
  assumes "1 \<le> (m::nat)"
  shows "drop (length (drop (Suc (length xs) - m) (xs @ [x])) + k - m)
              (drop (Suc (length xs) - m) (xs @ [x]) @ ys) =
         drop (length xs + Suc k - m) (xs @ x # ys)"
proof -
  let ?d = "Suc (length xs) - m"
  have e: "drop ?d (xs @ [x]) @ ys = drop ?d (xs @ x # ys)"
    using assms by simp
  have n: "length (drop ?d (xs @ [x])) + k - m + ?d = length xs + Suc k - m"
    using assms by simp
  have "drop (length (drop ?d (xs @ [x])) + k - m) (drop ?d (xs @ x # ys)) =
        drop (length (drop ?d (xs @ [x])) + k - m + ?d) (xs @ x # ys)"
    by (rule drop_drop)
  then show ?thesis unfolding e n .
qed

lemma add_messages_bounded:
  assumes "1 \<le> max_history s" "int (length (messages s)) \<le> max_history s"
  shows "messages (add_messages ms s) =
           drop (length (messages s) + length ms - nat (max_history s))
             (messages s @ map (\<lambda>(r, c, now). Message r c now) ms)"
  using assms
proof (induction ms s rule: add_messages.induct)
  case (1 s)
  then show ?case by simp
next
  case (2 r c now rest s)
  let ?s1 = "session_add_message r c now s"
  let ?m = "nat (max_history s)"
  let ?d = "Suc (length (messages s)) - ?m"
  let ?ys = "map (\<lambda>(r, c, now). Message r c now) rest"
  have m: "1 \<le> ?m" using "2.prems"(1) by simp
  have m1: "messages ?s1 = drop ?d (messages s @ [Message r c now])"
    by (rule session_add_message_bounded(1) [OF "2.prems"(1)])
  have "int (length (messages ?s1)) \<le> max_history s"
    by (rule session_add_message_bounded(2) [OF "2.prems"(1)])
  then have "messages (add_messages rest ?s1) =
          drop (length (messages ?s1) + length rest - ?m) (messages ?s1 @ ?ys)"
    using "2.IH" "2.prems"(1) by simp
  also have "\<dots> = drop (length (messages s) + Suc (length rest) - ?m)
                     (messages s @ Message r c now # ?ys)"
    unfolding m1 using drop_tail_window [OF m, of "messages s" "Message r c now" "length rest" ?ys] .
  finally show ?case by simp
qed

lemma add_messages_length:
  assumes "1 \<le> max_history s" "int (length (messages s)) \<le> max_history s"
  shows "int (length (messages (add_messages ms s))) \<le> max_history s"
  using assms by (simp add: add_messages_bounded)

subsection \<open>The registry\<close>

lemma session_clear_fields [simp]:
  "session_id (session_clear s) = session_id s"
  "max_history (session_clear s) = max_history s"
  "last_access (session_clear s) = last_access s"
  "created_at (session_clear s) = created_at s"
  "messages (session_clear s) = []"
  by (simp_all add: session_clear_def)

lemma ConversationSession_fields [simp]:
  "session_id (ConversationSession k mh now) = k"
  "max_history (ConversationSession k mh now) = mh"
  "last_access (ConversationSession k mh now) = now"
  "created_at (ConversationSession k mh now) = now"
  "messages (ConversationSession k mh now) = []"
  by (simp_all add: ConversationSession_def)

text \<open>
  \<open>create_session\<close> registers the new session under the identifier it returns, so the
  read-back of \<open>get_session\<close> finds it.
\<close>

lemma create_session_registers:
  assumes "create_session uuid now svc = (k, svc1)"
  shows "k = uuid"
    and "sessions svc1 k = Some (ConversationSession uuid (max_history_per_session svc) now)"
    and "svc1 = svc\<lparr>sessions := (sessions svc)
                  (uuid \<mapsto> ConversationSession uuid (max_history_per_session svc) now)\<rparr>"
  using assms by (auto simp: create_session_def)

lemma get_session_fresh:
  assumes "sid = None \<or> (\<exists>k. sid = Some k \<and> sessions svc k = None)"
  shows "get_session sid uuid now svc =
           (Inr (uuid, ConversationSession uuid (max_history_per_session svc) now),
            svc\<lparr>sessions := (sessions svc)
                   (uuid \<mapsto> ConversationSession uuid (max_history_per_session svc) now)\<rparr>)"
proof -
  obtain k svc1 where c: "create_session uuid now svc = (k, svc1)"
    by (cases "create_session uuid now svc")
  note r = create_session_registers [OF c]
  have "get_session sid uuid now svc =
          (case sessions svc1 k of None \<Rightarrow> (Inl (KeyError k), svc1)
           | Some session \<Rightarrow> (Inr (k, session), svc1))"
    using assms c by (auto simp: get_session_def)
  then show ?thesis using r(1,2) r(3) [symmetric] by simp
qed

lemma get_session_known:
  assumes "sessions svc k = Some s"
  shows "get_session (Some k) uuid now svc =
           (if now - last_access s > session_timeout svc
            then (Inr (k, session_clear s), svc\<lparr>sessions := (sessions svc)(k \<mapsto> session_clear s)\<rparr>)
            else (Inr (k, s), svc))"
  using assms by (simp add: get_session_def Let_def)

lemma get_session_cases:
  obtains (fresh) "sid = None \<or> (\<exists>k. sid = Some k \<and> sessions svc k = None)"
  | (known) k s where "sid = Some k" "sessions svc k = Some s"
  by (cases sid) auto

text \<open>\<open>get_session\<close> never raises.\<close>

lemma get_session_succeeds:
  "\<exists>k s. fst (get_session sid uuid now svc) = Inr (k, s)"
proof (cases sid svc rule: get_session_cases)
  case fresh
  then show ?thesis using get_session_fresh [OF fresh, of uuid now] by simp
next
  case (known k s)
  then show ?thesis using get_session_known [OF known(2), of uuid now] by simp
qed

lemma get_session_result_conj:
  assumes "get_session sid uuid now svc = (Inr (k, s), svc1)"
  shows "sessions svc1 k = Some s \<and>
      (\<forall>k'. k' \<noteq> k \<longrightarrow> sessions svc1 k' = sessions svc k') \<and>
      max_history_per_session svc1 = max_history_per_session svc \<and>
      session_timeout svc1 = session_timeout svc \<and>
      (wf_registry svc \<longrightarrow> session_id s = k) \<and>
      dom (sessions svc1) = insert k (dom (sessions svc))"
proof (cases sid svc rule: get_session_cases)
  case fresh
  then show ?thesis
    using assms get_session_fresh [OF fresh, of uuid now] by auto
next
  case (known k0 s0)
  then show ?thesis
    using assms get_session_known [OF known(2), of uuid now]
    by (auto simp: wf_registry_def split: if_splits)
qed

lemma get_session_result:
  assumes "get_session sid uuid now svc = (Inr (k, s), svc1)"
  shows "sessions svc1 k = Some s"
    and "\<forall>k'. k' \<noteq> k \<longrightarrow> sessions svc1 k' = sessions svc k'"
    and "max_history_per_session svc1 = max_history_per_session svc"
    and "session_timeout svc1 = session_timeout svc"
    and "wf_registry svc \<Longrightarrow> session_id s = k"
    and "dom (sessions svc1) = insert k (dom (sessions svc))"
  using get_session_result_conj [OF assms] by blast+

lemma get_session_obtain:
  obtains k s svc1 where "get_session sid uuid now svc = (Inr (k, s), svc1)"
proof -
  obtain k s where "fst (get_session sid uuid now svc) = Inr (k, s)"
    using get_session_succeeds by blast
  then have "get_session sid uuid now svc = (Inr (k, s), snd (get_session sid uuid now svc))"
    by (simp add: prod_eq_iff)
  then show ?thesis by (rule that)
qed




lemma wf_registry_create_session:
  assumes "wf_registry svc" "create_session uuid now svc = (k, svc1)"
  shows "wf_registry svc1"
  using assms(1) create_session_registers(3) [OF assms(2)] by (simp add: wf_registry_def)


lemma add_message_unfold:
  assumes "get_session sid uuid now svc = (Inr (k, s), svc1)"
  shows "add_message sid r c uuid now svc =
           (Inr (session_id s),
            svc1\<lparr>sessions := (sessions svc1)(k \<mapsto> session_add_message r c now s)\<rparr>)"
  using assms by (simp add: add_message_def)

text \<open>\<open>add_message\<close> never raises.\<close>

lemma add_message_succeeds:
  "\<exists>k. fst (add_message sid r c uuid now svc) = Inr k"
proof -
  obtain k s svc1 where g: "get_session sid uuid now svc = (Inr (k, s), svc1)"
    by (rule get_session_obtain)
  show ?thesis using add_message_unfold [OF g, of r c] by simp
qed

lemma add_message_obtain:
  obtains k svc1 where "add_message sid r c uuid now svc = (Inr k, svc1)"
proof -
  obtain k where "fst (add_message sid r c uuid now svc) = Inr k"
    using add_message_succeeds by blast
  then have "add_message sid r c uuid now svc = (Inr k, snd (add_message sid r c uuid now svc))"
    by (simp add: prod_eq_iff)
  then show ?thesis by (rule that)
qed


lemma wf_registry_clear_session: "wf_registry svc \<Longrightarrow> wf_registry (clear_session k svc)"
  by (auto simp: wf_registry_def clear_session_def split: option.splits)

lemma wf_registry_delete_session: "wf_registry svc \<Longrightarrow> wf_registry (delete_session k svc)"
  by (auto simp: wf_registry_def delete_session_def split: option.splits)

subsection \<open>Resolution, expiry and access times\<close>





text \<open>
  C3. When \<open>get_session\<close> is given the identifier of a registered session whose
  \<open>last_access\<close> lies more than the timeout before \<open>now\<close>, it returns that session under
  the same key with its messages cleared and its identifier kept; the registry has
  the same keys as before and holds the cleared session, so its history reads as
  empty; no identifier is drawn (the result does not depend on \<open>uuid\<close>); and later
  calls given the identifier resolve to the same entry.
\<close>

theorem get_session_expired:
  assumes "sessions svc sid = Some s" and "now - last_access s > session_timeout svc"
  shows "get_session (Some sid) uuid now svc =
           (Inr (sid, session_clear s), svc\<lparr>sessions := (sessions svc)(sid \<mapsto> session_clear s)\<rparr>)
       \<and> messages (session_clear s) = []
       \<and> session_get_history (session_clear s) last_n = []
       \<and> session_id (session_clear s) = session_id s
       \<and> dom (sessions (snd (get_session (Some sid) uuid now svc))) = dom (sessions svc)
       \<and> get_conversation_history (snd (get_session (Some sid) uuid now svc)) (Some sid) last_n = []
       \<and> get_session (Some sid) uuid' now svc = get_session (Some sid) uuid now svc
       \<and> fst (get_session (Some sid) uuid2 now2 (snd (get_session (Some sid) uuid now svc)))
           = Inr (sid, session_clear s)
       \<and> fst (add_message (Some sid) r c uuid2 now2 (snd (get_session (Some sid) uuid now svc)))
           = Inr (session_id s)
       \<and> dom (sessions (snd (add_message (Some sid) r c uuid2 now2
                                (snd (get_session (Some sid) uuid now svc))))) = dom (sessions svc)"
proof -
  let ?svc1 = "svc\<lparr>sessions := (sessions svc)(sid \<mapsto> session_clear s)\<rparr>"
  have g: "get_session (Some sid) u now svc = (Inr (sid, session_clear s), ?svc1)" for u
    using get_session_known [OF assms(1), of u now] assms(2) by simp
  have h: "session_get_history (session_clear s) last_n = []"
    by (cases last_n) (simp_all add: session_get_history_def py_slice_from_def)
  have d: "dom (sessions ?svc1) = dom (sessions svc)" using assms(1) by auto
  have l: "sessions ?svc1 sid = Some (session_clear s)" by simp
  have c: "get_conversation_history ?svc1 (Some sid) last_n = []"
    using h by (simp add: get_conversation_history_def)
  have cc: "session_clear (session_clear s) = session_clear s"
    by (simp add: session_clear_def)
  have "fst (get_session (Some sid) uuid2 now2 ?svc1) = Inr (sid, session_clear s)"
    using get_session_known [OF l, of uuid2 now2] cc by simp
  then have g2: "get_session (Some sid) uuid2 now2 ?svc1 =
                   (Inr (sid, session_clear s), snd (get_session (Some sid) uuid2 now2 ?svc1))"
    by (simp add: prod_eq_iff)
  define svc2 where "svc2 = snd (get_session (Some sid) uuid2 now2 ?svc1)"
  note g2 = g2 [folded svc2_def]
  have k: "fst (get_session (Some sid) uuid2 now2 ?svc1) = Inr (sid, session_clear s)"
    using g2 by simp
  note r = get_session_result [OF g2]
  have a: "add_message (Some sid) r c uuid2 now2 ?svc1 =
             (Inr (session_id (session_clear s)),
              svc2\<lparr>sessions := (sessions svc2)(sid \<mapsto> session_add_message r c now2 (session_clear s))\<rparr>)"
    using g2 by (rule add_message_unfold)
  have a1: "fst (add_message (Some sid) r c uuid2 now2 ?svc1) = Inr (session_id s)"
    using a by simp
  have a2: "dom (sessions (snd (add_message (Some sid) r c uuid2 now2 ?svc1))) = dom (sessions svc)"
    using a r(6) d by auto
  show ?thesis
    unfolding g using h d c k a1 a2 by simp
qed

theorem get_session_expired_witness:
  "sessions example_service ''s1'' = Some example_session
   \<and> 90000000000 - last_access example_session > session_timeout example_service
   \<and> get_session (Some ''s1'') ''u'' 90000000000 example_service =
        (Inr (''s1'', session_clear example_session),
         example_service\<lparr>sessions := (sessions example_service)(''s1'' \<mapsto> session_clear example_session)\<rparr>)
   \<and> get_conversation_history (snd (get_session (Some ''s1'') ''u'' 90000000000 example_service))
        (Some ''s1'') None = []
   \<and> get_conversation_history example_service (Some ''s1'') None = [Message ''user'' ''hi'' 0]"
proof -
  have h1: "sessions example_service ''s1'' = Some example_session"
    by (simp add: example_service_def)
  have h2: "90000000000 - last_access example_session > session_timeout example_service"
    by (simp add: example_service_def example_session_def)
  have b: "get_conversation_history example_service (Some ''s1'') None = [Message ''user'' ''hi'' 0]"
    by (simp add: get_conversation_history_def session_get_history_def example_service_def
        example_session_def)
  from get_session_expired [OF h1 h2, of "''u''" None] h1 h2 b show ?thesis by blast
qed

text \<open>
  C9 (as amended). Appending a message sets \<open>last_access\<close> of the session to the
  instant of the call. \<open>get_session\<close> on a registered session returns it with its
  \<open>last_access\<close> unchanged, whether or not the expiry check clears its messages.
\<close>

theorem last_access_set_by_append_only:
  assumes "sessions svc k = Some s"
  shows "(\<exists>s'. sessions (snd (add_message (Some k) r c uuid now svc)) k = Some s'
              \<and> last_access s' = now)
       \<and> (\<exists>s'. fst (get_session (Some k) uuid now svc) = Inr (k, s')
              \<and> sessions (snd (get_session (Some k) uuid now svc)) k = Some s'
              \<and> last_access s' = last_access s
              \<and> messages s' = (if now - last_access s > session_timeout svc then [] else messages s))"
proof -
  define s' where "s' = (if now - last_access s > session_timeout svc then session_clear s else s)"
  define svc1 where "svc1 = (if now - last_access s > session_timeout svc
                             then svc\<lparr>sessions := (sessions svc)(k \<mapsto> session_clear s)\<rparr> else svc)"
  have g: "get_session (Some k) uuid now svc = (Inr (k, s'), svc1)"
    using get_session_known [OF assms, of uuid now] by (simp add: s'_def svc1_def)
  have l: "last_access s' = last_access s"
    and m: "messages s' = (if now - last_access s > session_timeout svc then [] else messages s)"
    by (simp_all add: s'_def)
  note r = get_session_result [OF g]
  have "sessions (snd (add_message (Some k) r c uuid now svc)) k = Some (session_add_message r c now s')"
    using add_message_unfold [OF g, of r c] by simp
  then have 1: "\<exists>s'. sessions (snd (add_message (Some k) r c uuid now svc)) k = Some s'
              \<and> last_access s' = now"
    by simp
  have 2: "\<exists>s'. fst (get_session (Some k) uuid now svc) = Inr (k, s')
              \<and> sessions (snd (get_session (Some k) uuid now svc)) k = Some s'
              \<and> last_access s' = last_access s
              \<and> messages s' = (if now - last_access s > session_timeout svc then [] else messages s)"
    using g r(1) l m by auto
  from 1 2 show ?thesis by (rule conjI)
qed

theorem last_access_set_by_append_only_witness:
  "sessions example_service ''s1'' = Some example_session
   \<and> (\<exists>s'. sessions (snd (add_message (Some ''s1'') ''user'' ''x'' ''u'' 7 example_service)) ''s1''
             = Some s' \<and> last_access s' = 7)
   \<and> (\<exists>s'. fst (get_session (Some ''s1'') ''u'' 7 example_service) = Inr (''s1'', s')
             \<and> last_access s' = 0 \<and> messages s' = [Message ''user'' ''hi'' 0])"
proof -
  have h: "sessions example_service ''s1'' = Some example_session"
    by (simp add: example_service_def)
  have e: "last_access example_session = 0" "messages example_session = [Message ''user'' ''hi'' 0]"
    "\<not> 7 - last_access example_session > session_timeout example_service"
    by (simp_all add: example_session_def example_service_def)
  from last_access_set_by_append_only [OF h, of "''user''" "''x''" "''u''" 7] h e
  show ?thesis by auto
qed

theorem expiry_check_keeps_last_access:
  "fst (get_session (Some ''s1'') ''u'' 90000000000 example_service)
     = Inr (''s1'', session_clear example_session)
   \<and> messages (session_clear example_session) = []
   \<and> last_access (session_clear example_session) = 0
   \<and> last_access (session_clear example_session) \<noteq> 90000000000"
  by (simp add: get_session_def example_service_def example_session_def Let_def)

text \<open>
  C2. The bound is not enforced for \<open>max_history = 0\<close>: the first message added to an
  empty session with that bound stays in its list, since \<open>messages[-0:]\<close> is the whole
  list.
\<close>

theorem session_bound_zero_not_enforced:
  "max_history (session_add_message ''user'' ''hi'' 1 (ConversationSession ''s'' 0 0)) = 0
   \<and> length (messages (session_add_message ''user'' ''hi'' 1 (ConversationSession ''s'' 0 0))) = 1"
  by (simp add: session_add_message_unbounded)

text \<open>With bound 0 the list only grows.\<close>

lemma add_messages_zero_bound_grows:
  assumes "max_history s = 0"
  shows "messages (add_messages ms s) = messages s @ map (\<lambda>(r, c, now). Message r c now) ms"
  using assms
  by (induction ms s rule: add_messages.induct) (simp_all add: session_add_message_unbounded)

text \<open>
  For a bound of at least 1 the list never exceeds the bound, a sequence of appends
  leaves the most recent messages in insertion order, and twelve appends to a new
  session with bound 10 leave the last ten.
\<close>

lemma session_bound_positive:
  assumes "1 \<le> max_history s"
  shows "int (length (messages (session_add_message r c now s))) \<le> max_history s"
  using assms by (rule session_add_message_bounded(2))

lemma twelve_messages_keep_last_ten:
  assumes "length ms = 12"
  shows "messages (add_messages ms (ConversationSession sid 10 now)) =
           map (\<lambda>(r, c, t). Message r c t) (drop 2 ms)"
  using assms add_messages_bounded [of "ConversationSession sid 10 now" ms]
  by (simp add: drop_map)

text \<open>
  C10. \<open>get_history\<close> with \<open>last_n = 0\<close> returns the whole message list, as it does with
  \<open>last_n\<close> absent: the slice \<open>messages[-0:]\<close> starts at position 0.
\<close>

theorem get_history_zero_is_all:
  "session_get_history s (Some 0) = messages s
   \<and> session_get_history s (Some 0) = session_get_history s None"
  by (simp add: session_get_history_def py_slice_from_def adjust_def)

section \<open>Properties of the chat route\<close>

subsection \<open>The result loop\<close>

lemma filter_first_seen_notin:
  "filter (\<lambda>y. y \<noteq> x) (filter (\<lambda>y. y \<notin> set acc) xs) = filter (\<lambda>y. y \<notin> set (acc @ [x])) xs"
  by (induction xs) auto

lemma chat_loop_spec:
  "chat_loop rs context_parts srcs =
     (context_parts @ map result_text rs,
      srcs @ first_seen (filter (\<lambda>l. l \<notin> set srcs) (map source_label rs)))"
proof (induction rs arbitrary: context_parts srcs)
  case Nil
  then show ?case by simp
next
  case (Cons r rs)
  show ?case
  proof (cases "source_label r \<in> set srcs")
    case True
    then show ?thesis using Cons.IH [of "context_parts @ [result_text r]" srcs]
      by (simp add: Let_def)
  next
    case False
    then show ?thesis
      using Cons.IH [of "context_parts @ [result_text r]" "srcs @ [source_label r]"]
        filter_first_seen_notin [of "source_label r" srcs "map source_label rs"]
      by (simp add: Let_def)
  qed
qed

lemma chat_loop_empty:
  "chat_loop rs [] [] = (map result_text rs, first_seen (map source_label rs))"
  by (simp add: chat_loop_spec)

lemma set_first_seen: "set (first_seen xs) = set xs"
  by (induction xs rule: first_seen.induct) auto

lemma distinct_first_seen: "distinct (first_seen xs)"
  by (induction xs rule: first_seen.induct) (auto simp: set_first_seen)

lemma first_seen_distinct: "distinct xs \<Longrightarrow> first_seen xs = xs"
proof (induction xs)
  case Nil
  then show ?case by simp
next
  case (Cons x xs)
  then have "filter (\<lambda>y. y \<noteq> x) xs = xs" by (auto simp: filter_id_conv)
  with Cons show ?case by simp
qed

lemma count_list_distinct: "distinct xs \<Longrightarrow> x \<in> set xs \<Longrightarrow> count_list xs x = 1"
  by (induction xs) auto

lemma count_first_seen: "x \<in> set xs \<Longrightarrow> count_list (first_seen xs) x = 1"
  using distinct_first_seen [of xs] set_first_seen [of xs]
  by (simp add: count_list_distinct)

subsection \<open>The branches of the chat route\<close>

lemma chat_no_results_unfold:
  assumes "generate_embeddings env [query request] = Inr (qe # others)"
    and "search env qe (top_k request) = Inr []"
    and "add_message (request_session_id request) ''user'' (query request) uuid1 now1 svc
           = (Inr sid, svc1)"
    and "add_message (Some sid) ''assistant'' fallback_answer uuid2 now2 svc1 = (Inr sid2, svc2)"
  shows "chat env request uuid1 now1 uuid2 now2 svc =
           (Inr \<lparr>answer = fallback_answer, sources = [], response_session_id = sid\<rparr>, svc2,
            [EmbedCall [query request], SearchCall qe (top_k request)])"
  using assms by (simp add: chat_def)

lemma chat_results_failure:
  assumes "generate_embeddings env [query request] = Inr (qe # others)"
    and "search env qe (top_k request) = Inr rs" and "rs \<noteq> []"
    and "history = get_conversation_context svc (request_session_id request) (Some 5)"
    and "ctx = join [CHR 0x0A, CHR 0x0A] (map result_text rs)"
    and "harg = (if history \<noteq> [] then Some history else None)"
    and "generate_response env (query request) ctx harg = Inl e"
  shows "chat env request uuid1 now1 uuid2 now2 svc =
           (Inl (HTTPException 500 (error_str e)), svc,
            [EmbedCall [query request], SearchCall qe (top_k request),
             GenerateCall (query request) ctx harg])"
  using assms by (cases "history = []") (simp_all add: chat_def chat_loop_empty Let_def)

lemma chat_results_success:
  assumes "generate_embeddings env [query request] = Inr (qe # others)"
    and "search env qe (top_k request) = Inr rs" and "rs \<noteq> []"
    and "history = get_conversation_context svc (request_session_id request) (Some 5)"
    and "ctx = join [CHR 0x0A, CHR 0x0A] (map result_text rs)"
    and "harg = (if history \<noteq> [] then Some history else None)"
    and "generate_response env (query request) ctx harg = Inr ans"
    and "add_message (request_session_id request) ''user'' (query request) uuid1 now1 svc
           = (Inr sid, svc1)"
    and "add_message (Some sid) ''assistant'' ans uuid2 now2 svc1 = (Inr sid2, svc2)"
  shows "chat env request uuid1 now1 uuid2 now2 svc =
           (Inr \<lparr>answer = ans, sources = first_seen (map source_label rs),
                 response_session_id = sid\<rparr>, svc2,
            [EmbedCall [query request], SearchCall qe (top_k request),
             GenerateCall (query request) ctx harg])"
  using assms by (cases "history = []") (simp_all add: chat_def chat_loop_empty Let_def)




lemma chat_results_unfold:
  assumes e: "generate_embeddings env [query request] = Inr (qe # others)"
    and s: "search env qe (top_k request) = Inr rs" and n: "rs \<noteq> []"
    and h: "history = get_conversation_context svc (request_session_id request) (Some 5)"
    and c: "ctx = join [CHR 0x0A, CHR 0x0A] (map result_text rs)"
    and a: "harg = (if history \<noteq> [] then Some history else None)"
  shows "chat env request uuid1 now1 uuid2 now2 svc =
           (case generate_response env (query request) ctx harg of
              Inl e \<Rightarrow> (Inl (HTTPException 500 (error_str e)), svc,
                        [EmbedCall [query request], SearchCall qe (top_k request),
                         GenerateCall (query request) ctx harg])
            | Inr ans \<Rightarrow>
                (Inr \<lparr>answer = ans, sources = first_seen (map source_label rs),
                      response_session_id =
                        projr (fst (add_message (request_session_id request) ''user''
                                      (query request) uuid1 now1 svc))\<rparr>,
                 snd (add_message
                        (Some (projr (fst (add_message (request_session_id request) ''user''
                                             (query request) uuid1 now1 svc))))
                        ''assistant'' ans uuid2 now2
                        (snd (add_message (request_session_id request) ''user'' (query request)
                                uuid1 now1 svc))),
                 [EmbedCall [query request], SearchCall qe (top_k request),
                  GenerateCall (query request) ctx harg]))"
proof (cases "generate_response env (query request) ctx harg")
  case (Inl err)
  then show ?thesis
    using chat_results_failure [OF e s n h c a Inl, of uuid1 now1 uuid2 now2] by simp
next
  case (Inr ans)
  obtain sid svc1 where a1:
    "add_message (request_session_id request) ''user'' (query request) uuid1 now1 svc
       = (Inr sid, svc1)"
    by (rule add_message_obtain)
  obtain sid2 svc2 where a2:
    "add_message (Some sid) ''assistant'' ans uuid2 now2 svc1 = (Inr sid2, svc2)"
    by (rule add_message_obtain)
  show ?thesis
    using chat_results_success [OF e s n h c a Inr a1 a2] Inr a1 a2 by simp
qed

text \<open>\<open>chat\<close> fails only before it appends: the registry it leaves is the one it was given.\<close>

lemma chat_failure_keeps_registry:
  assumes f: "chat env request uuid1 now1 uuid2 now2 svc = (Inl err, svc', calls)"
  shows "svc' = svc"
proof (cases "generate_embeddings env [query request]")
  case (Inl e)
  then show ?thesis using f by (simp add: chat_def)
next
  case (Inr embs)
  show ?thesis
  proof (cases embs)
    case Nil
    then show ?thesis using f Inr by (simp add: chat_def)
  next
    case (Cons qe others)
    then have e: "generate_embeddings env [query request] = Inr (qe # others)"
      using Inr by simp
    show ?thesis
    proof (cases "search env qe (top_k request)")
      case (Inl e2)
      then show ?thesis using f e by (simp add: chat_def)
    next
      case s: (Inr rs)
      show ?thesis
      proof (cases "rs = []")
        case True
        obtain sid svc1 where a1:
          "add_message (request_session_id request) ''user'' (query request) uuid1 now1 svc
             = (Inr sid, svc1)"
          by (rule add_message_obtain)
        obtain sid2 svc2 where a2:
          "add_message (Some sid) ''assistant'' fallback_answer uuid2 now2 svc1 = (Inr sid2, svc2)"
          by (rule add_message_obtain)
        show ?thesis
          using chat_no_results_unfold [OF e s [unfolded True] a1 a2] f by simp
      next
        case False
        show ?thesis
          using chat_results_unfold [OF e s False refl refl refl, of uuid1 now1 uuid2 now2] f
          by (simp split: sum.splits)
      qed
    qed
  qed
qed

text \<open>
  C6. When the embedding and search calls succeed with at least one result and the
  generation call raises, the route fails with \<open>HTTPException(500, str(e))\<close> and
  the registry it leaves is the registry it was given: no message is appended and
  no session is created, cleared or touched.
\<close>

theorem chat_generation_failure:
  assumes e: "generate_embeddings env [query request] = Inr (qe # others)"
    and s: "search env qe (top_k request) = Inr rs" and n: "rs \<noteq> []"
    and g: "generate_response env (query request)
              (join [CHR 0x0A, CHR 0x0A] (map result_text rs))
              (if get_conversation_context svc (request_session_id request) (Some 5) \<noteq> []
               then Some (get_conversation_context svc (request_session_id request) (Some 5))
               else None) = Inl err"
  shows "chat env request uuid1 now1 uuid2 now2 svc =
           (Inl (HTTPException 500 (error_str err)), svc,
            [EmbedCall [query request], SearchCall qe (top_k request),
             GenerateCall (query request) (join [CHR 0x0A, CHR 0x0A] (map result_text rs))
               (if get_conversation_context svc (request_session_id request) (Some 5) \<noteq> []
                then Some (get_conversation_context svc (request_session_id request) (Some 5))
                else None)])"
  using chat_results_unfold [OF e s n refl refl refl, of uuid1 now1 uuid2 now2] g by simp

theorem chat_generation_failure_witness:
  "generate_embeddings (example_env\<lparr>generate_response := \<lambda>q c h. Inl (CollaboratorError ''Model not loaded'')\<rparr>)
      [query example_request] = Inr ([0] # [])
   \<and> search (example_env\<lparr>generate_response := \<lambda>q c h. Inl (CollaboratorError ''Model not loaded'')\<rparr>)
      [0] (top_k example_request) = Inr example_results
   \<and> example_results \<noteq> []
   \<and> (\<exists>calls.
        chat (example_env\<lparr>generate_response := \<lambda>q c h. Inl (CollaboratorError ''Model not loaded'')\<rparr>)
          (example_request\<lparr>request_session_id := Some ''s1''\<rparr>) ''u1'' 1 ''u2'' 2 example_service =
        (Inl (HTTPException 500 ''Model not loaded''), example_service, calls))"
proof -
  let ?env = "example_env\<lparr>generate_response := \<lambda>q c h. Inl (CollaboratorError ''Model not loaded'')\<rparr>"
  let ?req = "example_request\<lparr>request_session_id := Some ''s1''\<rparr>"
  have e: "generate_embeddings ?env [query ?req] = Inr ([0] # [])"
    by (simp add: example_env_def example_request_def)
  have s: "search ?env [0] (top_k ?req) = Inr example_results"
    by (simp add: example_env_def)
  have n: "example_results \<noteq> []"
    by (simp add: example_results_def)
  have g: "generate_response ?env q c h = Inl (CollaboratorError ''Model not loaded'')" for q c h
    by simp
  from chat_generation_failure [OF e s n g, of "''u1''" 1 "''u2''" 2 example_service] e s n
  show ?thesis by (auto simp: example_request_def)
qed


text \<open>
  C7. When the embedding and search calls succeed with at least one result, the
  generation service is called with the context made of the result texts in the order
  returned, joined by a blank line. When it answers, the sources returned are the
  labels \<open>source (chunk chunk_id)\<close> of the results, deduplicated in first-seen order:
  the list is distinct, holds exactly the labels of the results, and every label
  occurs once, so two results with the same source and chunk index give one entry.
\<close>

theorem chat_sources_and_context:
  assumes e: "generate_embeddings env [query request] = Inr (qe # others)"
    and s: "search env qe (top_k request) = Inr rs" and n: "rs \<noteq> []"
  shows "\<exists>res svc' harg.
           chat env request uuid1 now1 uuid2 now2 svc =
             (res, svc',
              [EmbedCall [query request], SearchCall qe (top_k request),
               GenerateCall (query request) (join [CHR 0x0A, CHR 0x0A] (map result_text rs)) harg])
         \<and> (\<forall>ans. generate_response env (query request)
                    (join [CHR 0x0A, CHR 0x0A] (map result_text rs)) harg = Inr ans \<longrightarrow>
                  (\<exists>sid. res = Inr \<lparr>answer = ans, sources = first_seen (map source_label rs),
                                    response_session_id = sid\<rparr>))
         \<and> (\<forall>resp. res = Inr resp \<longrightarrow> sources resp = first_seen (map source_label rs))
         \<and> distinct (first_seen (map source_label rs))
         \<and> set (first_seen (map source_label rs)) = source_label ` set rs
         \<and> (\<forall>r\<in>set rs. count_list (first_seen (map source_label rs)) (source_label r) = 1)
         \<and> (\<forall>r1 r2. result_source r1 = result_source r2 \<and> result_chunk_id r1 = result_chunk_id r2
               \<longrightarrow> source_label r1 = source_label r2)"
proof -
  define history where "history = get_conversation_context svc (request_session_id request) (Some 5)"
  define ctx where "ctx = join [CHR 0x0A, CHR 0x0A] (map result_text rs)"
  define harg where "harg = (if history \<noteq> [] then Some history else None)"
  let ?calls = "[EmbedCall [query request], SearchCall qe (top_k request),
                 GenerateCall (query request) ctx harg]"
  note u = chat_results_unfold [OF e s n history_def ctx_def harg_def, of uuid1 now1 uuid2 now2]
  obtain res svc' calls where c: "chat env request uuid1 now1 uuid2 now2 svc = (res, svc', calls)"
    by (cases "chat env request uuid1 now1 uuid2 now2 svc")
  have calls: "calls = ?calls"
    using u c by (cases "generate_response env (query request) ctx harg") simp_all
  have ok: "\<exists>sid. res = Inr \<lparr>answer = ans, sources = first_seen (map source_label rs),
                                    response_session_id = sid\<rparr>"
    if "generate_response env (query request) ctx harg = Inr ans" for ans
    using u c that by simp
  have src: "sources resp = first_seen (map source_label rs)" if "res = Inr resp" for resp
    using u c that by (cases "generate_response env (query request) ctx harg") auto
  have 1: "chat env request uuid1 now1 uuid2 now2 svc = (res, svc', ?calls)"
    using c calls by simp
  have 2: "\<forall>ans. generate_response env (query request) ctx harg = Inr ans \<longrightarrow>
                  (\<exists>sid. res = Inr \<lparr>answer = ans, sources = first_seen (map source_label rs),
                                    response_session_id = sid\<rparr>)"
    using ok by blast
  have 3: "\<forall>resp. res = Inr resp \<longrightarrow> sources resp = first_seen (map source_label rs)"
    using src by blast
  have 4: "distinct (first_seen (map source_label rs))" by (rule distinct_first_seen)
  have 5: "set (first_seen (map source_label rs)) = source_label ` set rs"
    by (simp add: set_first_seen)
  have 6: "\<forall>r\<in>set rs. count_list (first_seen (map source_label rs)) (source_label r) = 1"
    by (simp add: count_first_seen)
  have 7: "\<forall>r1 r2. result_source r1 = result_source r2 \<and> result_chunk_id r1 = result_chunk_id r2
               \<longrightarrow> source_label r1 = source_label r2"
    by (simp add: source_label_def)
  show ?thesis
    by (rule exI [of _ res], rule exI [of _ svc'], rule exI [of _ harg])
      (intro conjI 1 [unfolded ctx_def] 2 [unfolded ctx_def] 3 4 5 6 7)
qed

theorem chat_sources_and_context_witness:
  "generate_embeddings example_env [query example_request] = Inr ([0] # [])
   \<and> search example_env [0] (top_k example_request) = Inr example_results
   \<and> example_results \<noteq> []
   \<and> (\<exists>sid svc' harg.
        chat example_env example_request ''u1'' 1 ''u2'' 2 example_service =
          (Inr \<lparr>answer = ''answer to q?'', sources = [''a.txt (chunk 0)'', ''a.txt (chunk 1)''],
                response_session_id = sid\<rparr>, svc',
           [EmbedCall [''q?''], SearchCall [0] (Some 3),
            GenerateCall ''q?'' (''t1'' @ [CHR 0x0A, CHR 0x0A] @ ''t2'' @ [CHR 0x0A, CHR 0x0A] @ ''t1'')
              harg]))"
proof -
  have e: "generate_embeddings example_env [query example_request] = Inr ([0] # [])"
    by (simp add: example_env_def example_request_def)
  have s: "search example_env [0] (top_k example_request) = Inr example_results"
    by (simp add: example_env_def)
  have n: "example_results \<noteq> []"
    by (simp add: example_results_def)
  have l: "first_seen (map source_label example_results) = [''a.txt (chunk 0)'', ''a.txt (chunk 1)'']"
    by code_simp
  have j: "join [CHR 0x0A, CHR 0x0A] (map result_text example_results) =
             ''t1'' @ [CHR 0x0A, CHR 0x0A] @ ''t2'' @ [CHR 0x0A, CHR 0x0A] @ ''t1''"
    by (simp add: example_results_def)
  have g: "generate_response example_env (query example_request) c h = Inr ''answer to q?''" for c h
    by (simp add: example_env_def example_request_def)
  have r: "query example_request = ''q?''" "top_k example_request = Some 3"
    by (simp_all add: example_request_def)
  from chat_sources_and_context [OF e s n, of "''u1''" 1 "''u2''" 2 example_service]
  obtain res svc' harg where
    c: "chat example_env example_request ''u1'' 1 ''u2'' 2 example_service =
             (res, svc',
              [EmbedCall [query example_request], SearchCall [0] (top_k example_request),
               GenerateCall (query example_request)
                 (join [CHR 0x0A, CHR 0x0A] (map result_text example_results)) harg])"
    and a: "\<forall>ans. generate_response example_env (query example_request)
                    (join [CHR 0x0A, CHR 0x0A] (map result_text example_results)) harg = Inr ans \<longrightarrow>
                  (\<exists>sid. res = Inr \<lparr>answer = ans,
                                    sources = first_seen (map source_label example_results),
                                    response_session_id = sid\<rparr>)"
    by (elim exE conjE) (rule that; assumption)
  from a g obtain sid where
    "res = Inr \<lparr>answer = ''answer to q?'', sources = first_seen (map source_label example_results),
                response_session_id = sid\<rparr>"
    by blast
  with c l j r e s n show ?thesis by (simp only: ) blast
qed

end
